theory Spec2Isabelle
  imports Complex_Main "HOL-Library.Log_Nat"
begin

section \<open>Fire district zone finder: the zone classification core of App.jsx\<close>

text \<open>
  The classification core of \<^verbatim>\<open>src/App.jsx\<close>: the zone registry \<^verbatim>\<open>ZONES\<close>, the
  point-in-polygon test \<^verbatim>\<open>isPointInPolygon\<close>, the label helper
  \<^verbatim>\<open>calculatePolygonCenter\<close> and the lookup \<^verbatim>\<open>findZone\<close>.

  JavaScript numbers are modelled as exact reals: rounding, infinities and NaN of IEEE
  doubles are outside the model. What JavaScript does where the reals have no value is
  written out as a fault of the result type. The point-in-polygon test is given a second
  time with the rounding of every operation written out, to show where rounding changes
  its result.
\<close>

subsection \<open>Data\<close>

type_synonym coord = "real \<times> real"

type_synonym ring = "coord list"

text \<open>
  \<^verbatim>\<open>TypeError\<close>: a property is read from \<^verbatim>\<open>undefined\<close>.
  \<^verbatim>\<open>DivisionByZero\<close>: a quotient with divisor zero. JavaScript does not throw
  there, it yields an infinity or NaN; the reals have neither, so the model marks the
  quotient as a fault of its own.
\<close>

datatype fault = TypeError | DivisionByZero

text \<open>
  A zone object \<^verbatim>\<open>{ id, name, color, coordinates }\<close>; \<^verbatim>\<open>coordinates\<close> is the
  GeoJSON polygon, a list of rings whose element 0 is the outer boundary.
\<close>

record zone =
  id_zone :: string
  name :: string
  color :: string
  coordinates :: "ring list"

text \<open>
  \<^verbatim>\<open>xs[k][..]\<close> and \<^verbatim>\<open>xs[k].length\<close>: an index outside the array reads
  \<^verbatim>\<open>undefined\<close>, and the property access that follows throws.
\<close>

definition js_index :: "'a list \<Rightarrow> int \<Rightarrow> fault + 'a" where
  "js_index xs k =
     (if 0 \<le> k \<and> k < int (length xs) then Inr (xs ! nat k) else Inl TypeError)"

definition js_divide :: "real \<Rightarrow> real \<Rightarrow> fault + real" where
  "js_divide a b = (if b = 0 then Inl DivisionByZero else Inr (a / b))"

subsection \<open>The registry\<close>

definition DISTRICT_COLORS :: "string list" where
  "DISTRICT_COLORS =
     [''#FF6B6B'', ''#4ECDC4'', ''#45B7D1'', ''#96CEB4'', ''#FFEAA7'',
      ''#DFE6E9'', ''#74B9FF'', ''#A29BFE'', ''#FD79A8'', ''#FDCB6E'']"

text \<open>
  \<^verbatim>\<open>const ZONES = FIRE_DISTRICT_ZONES.map((zone, index) => ({...zone, color:
  DISTRICT_COLORS[index % DISTRICT_COLORS.length]}))\<close>. The imported list
  \<^verbatim>\<open>FIRE_DISTRICT_ZONES\<close> is the parameter. Neither \<^verbatim>\<open>map\<close> nor the object
  spread throws and the colour index is in range, so the result is never a fault.
\<close>

definition ZONES :: "zone list \<Rightarrow> fault + zone list" where
  "ZONES FIRE_DISTRICT_ZONES =
     Inr (map (\<lambda>(index, zone).
                 zone\<lparr>color := DISTRICT_COLORS ! (index mod length DISTRICT_COLORS)\<rparr>)
              (enumerate 0 FIRE_DISTRICT_ZONES))"

subsection \<open>Point in polygon\<close>

text \<open>
  The loop body's \<^verbatim>\<open>intersect\<close>, with \<^verbatim>\<open>vi = polygon[i]\<close> and
  \<^verbatim>\<open>vj = polygon[j]\<close>. \<^verbatim>\<open>&&\<close> evaluates its right operand, and so the
  quotient, only when the left one is true.
\<close>

fun intersect :: "coord \<Rightarrow> coord \<Rightarrow> coord \<Rightarrow> fault + bool" where
  "intersect (lng, lat) (xi, yi) (xj, yj) =
     (if (yi > lat) \<noteq> (yj > lat) then
        (case js_divide ((xj - xi) * (lat - yi)) (yj - yi) of
           Inl e \<Rightarrow> Inl e
         | Inr q \<Rightarrow> Inr (lng < q + xi))
      else Inr False)"

text \<open>
  \<^verbatim>\<open>for (let i = 0, j = polygon.length - 1; i < polygon.length; j = i++)\<close>: the
  state of the loop is \<^verbatim>\<open>i\<close>, \<^verbatim>\<open>j\<close> and \<^verbatim>\<open>inside\<close>.
\<close>

function isPointInPolygon_loop :: "coord \<Rightarrow> ring \<Rightarrow> nat \<Rightarrow> int \<Rightarrow> bool \<Rightarrow> fault + bool" where
  "isPointInPolygon_loop point polygon i j inside =
     (if i < length polygon then
        (case js_index polygon (int i) of
           Inl e \<Rightarrow> Inl e
         | Inr vi \<Rightarrow>
            (case js_index polygon j of
               Inl e \<Rightarrow> Inl e
             | Inr vj \<Rightarrow>
                (case intersect point vi vj of
                   Inl e \<Rightarrow> Inl e
                 | Inr c \<Rightarrow>
                    isPointInPolygon_loop point polygon (i + 1) (int i)
                      (if c then \<not> inside else inside))))
      else Inr inside)"
  by pat_completeness auto
termination
  by (relation "measure (\<lambda>(point, polygon, i, j, inside). length polygon - i)") auto

definition isPointInPolygon :: "coord \<Rightarrow> ring \<Rightarrow> fault + bool" where
  "isPointInPolygon point polygon =
     isPointInPolygon_loop point polygon 0 (int (length polygon) - 1) False"

subsection \<open>Label position\<close>

text \<open>
  \<^verbatim>\<open>forEach\<close> adds each vertex to \<^verbatim>\<open>x\<close> and \<^verbatim>\<open>y\<close>, which start at 0; the
  two sums are then divided by \<^verbatim>\<open>coordinates.length\<close>.
\<close>

definition calculatePolygonCenter :: "ring \<Rightarrow> fault + coord" where
  "calculatePolygonCenter coords =
     (case foldl (\<lambda>(x, y) coord. (x + fst coord, y + snd coord)) (0, 0) coords of
        (x, y) \<Rightarrow>
          (case js_divide x (real (length coords)) of
             Inl e \<Rightarrow> Inl e
           | Inr cx \<Rightarrow>
              (case js_divide y (real (length coords)) of
                 Inl e \<Rightarrow> Inl e
               | Inr cy \<Rightarrow> Inr (cx, cy))))"

subsection \<open>Zone lookup\<close>

text \<open>
  \<^verbatim>\<open>for (const zone of ZONES) if (isPointInPolygon(coordinates,
  zone.coordinates[0])) return zone; return null\<close>. The registry is the second
  argument. A zone whose \<^verbatim>\<open>coordinates\<close> is empty passes \<^verbatim>\<open>undefined\<close> as the
  polygon, whose \<^verbatim>\<open>length\<close> cannot be read.
\<close>

fun findZone :: "coord \<Rightarrow> zone list \<Rightarrow> fault + zone option" where
  "findZone point [] = Inr None"
| "findZone point (zone # rest) =
     (case js_index (coordinates zone) 0 of
        Inl e \<Rightarrow> Inl e
      | Inr polygon \<Rightarrow>
         (case isPointInPolygon point polygon of
            Inl e \<Rightarrow> Inl e
          | Inr hit \<Rightarrow> if hit then Inr (Some zone) else findZone point rest))"

subsection \<open>The even-odd rule as the specification words it\<close>

text \<open>
  The crossing test of one edge with end points \<open>(xi, yi)\<close> and \<open>(xj, yj)\<close>: exactly
  one end point lies strictly above the point's latitude, and the edge meets that
  latitude east of the point.
\<close>

fun crosses :: "coord \<Rightarrow> coord \<Rightarrow> coord \<Rightarrow> bool" where
  "crosses (lng, lat) (xi, yi) (xj, yj) =
     ((yi > lat) \<noteq> (yj > lat) \<and> lng < (xj - xi) * (lat - yi) / (yj - yi) + xi)"

text \<open>
  The edges of a ring read as a cycle: each vertex paired with the vertex after it, the
  vertex after the last being the first.
\<close>

definition cyclic_edges :: "ring \<Rightarrow> (coord \<times> coord) list" where
  "cyclic_edges ring =
     map (\<lambda>k. (ring ! k, ring ! (Suc k mod length ring))) [0..<length ring]"

text \<open>The flag starts false and is toggled at every edge that crosses.\<close>

definition even_odd :: "coord \<Rightarrow> (coord \<times> coord) list \<Rightarrow> bool" where
  "even_odd point edges =
     foldl (\<lambda>inside (vi, vj). if crosses point vi vj then \<not> inside else inside)
       False edges"

text \<open>
  The pairs \<^verbatim>\<open>(polygon[i], polygon[j])\<close> in the order the loop of
  \<^verbatim>\<open>isPointInPolygon\<close> visits them, and the number of edges of a list that cross.
\<close>

definition loop_edges :: "ring \<Rightarrow> (coord \<times> coord) list" where
  "loop_edges polygon = zip polygon (rotate (length polygon - 1) polygon)"

definition crossings :: "coord \<Rightarrow> (coord \<times> coord) list \<Rightarrow> nat" where
  "crossings point edges = length (filter (\<lambda>(vi, vj). crosses point vi vj) edges)"

text \<open>A zone's outer boundary ring contains the point, by \<^const>\<open>isPointInPolygon\<close>.\<close>

definition outer_ring_contains :: "coord \<Rightarrow> zone \<Rightarrow> bool" where
  "outer_ring_contains point zone =
     (case coordinates zone of
        [] \<Rightarrow> False
      | ring # holes \<Rightarrow> isPointInPolygon point ring = Inr True)"

text \<open>
  The area-weighted centroid of a simple polygon (shoelace formula), only to compare
  \<^const>\<open>calculatePolygonCenter\<close> with.
\<close>

definition shoelace :: "coord \<times> coord \<Rightarrow> real" where
  "shoelace e = fst (fst e) * snd (snd e) - fst (snd e) * snd (fst e)"

definition area_centroid :: "ring \<Rightarrow> coord" where
  "area_centroid ring =
     (let es = cyclic_edges ring;
          a = (\<Sum>e\<leftarrow>es. shoelace e) / 2
      in ((\<Sum>e\<leftarrow>es. (fst (fst e) + fst (snd e)) * shoelace e) / (6 * a),
          (\<Sum>e\<leftarrow>es. (snd (fst e) + snd (snd e)) * shoelace e) / (6 * a)))"

subsection \<open>The point-in-polygon test in IEEE double arithmetic\<close>

text \<open>
  JavaScript computes in binary64: every operation returns the representable number
  nearest to the exact result, ties going to the even significand. A number other than
  zero with \<open>2 ^ e \<le> \<bar>x\<bar> < 2 ^ (e + 1)\<close> is rounded to a multiple of
  \<open>2 ^ (e - 52)\<close>, and to a multiple of \<open>2 ^ - 1074\<close> below the normal range.
  Overflow to an infinity is not modelled: coordinates are degrees.
\<close>

definition exponent :: "real \<Rightarrow> int" where
  "exponent x =
     (if 1 \<le> \<bar>x\<bar> then bitlen \<lfloor>\<bar>x\<bar>\<rfloor> - 1 else - bitlen (\<lceil>1 / \<bar>x\<bar>\<rceil> - 1))"

definition pow2 :: "int \<Rightarrow> real" where
  "pow2 k = (if 0 \<le> k then 2 ^ nat k else 1 / 2 ^ nat (- k))"

definition round_even :: "real \<Rightarrow> int" where
  "round_even r =
     (let f = \<lfloor>r\<rfloor>; d = r - of_int f
      in if d < 1 / 2 then f else if 1 / 2 < d then f + 1 else if even f then f else f + 1)"

definition double :: "real \<Rightarrow> real" where
  "double x =
     (if x = 0 then 0
      else let u = pow2 (max (exponent x - 52) (- 1074))
           in of_int (round_even (x / u)) * u)"





subsection \<open>Sample data\<close>

text \<open>
  The three example zones that an earlier revision of \<^verbatim>\<open>App.jsx\<close> lists inline as
  \<^verbatim>\<open>ZONES\<close>, and data for the corner cases: a large square that overlaps
  \<open>zone_1\<close>, a zone whose boundary has two vertices, and a square with one more vertex
  on its lower side.
\<close>

definition zone_1 :: zone where
  "zone_1 = \<lparr>id_zone = ''zone-1'', name = ''Fire District 1'', color = ''#FF6B6B'',
      coordinates = [[(-122.2015, 47.6101), (-122.1815, 47.6101), (-122.1815, 47.5901),
                      (-122.2015, 47.5901), (-122.2015, 47.6101)]]\<rparr>"

definition zone_2 :: zone where
  "zone_2 = \<lparr>id_zone = ''zone-2'', name = ''Fire District 2'', color = ''#4ECDC4'',
      coordinates = [[(-122.1815, 47.6101), (-122.1615, 47.6101), (-122.1615, 47.5901),
                      (-122.1815, 47.5901), (-122.1815, 47.6101)]]\<rparr>"

definition zone_3 :: zone where
  "zone_3 = \<lparr>id_zone = ''zone-3'', name = ''Fire District 3'', color = ''#45B7D1'',
      coordinates = [[(-122.2015, 47.6301), (-122.1815, 47.6301), (-122.1815, 47.6101),
                      (-122.2015, 47.6101), (-122.2015, 47.6301)]]\<rparr>"

definition zone_wide :: zone where
  "zone_wide = \<lparr>id_zone = ''zone-wide'', name = ''Wide'', color = ''#000000'',
      coordinates = [[(-123, 47), (-122, 47), (-122, 48), (-123, 48)]]\<rparr>"

definition zone_two_vertices :: zone where
  "zone_two_vertices = \<lparr>id_zone = ''zone-bad'', name = ''Two vertices'', color = ''#000000'',
      coordinates = [[(0, 0), (4, 4)]]\<rparr>"

definition ring_five :: ring where
  "ring_five = [(0, 0), (2, 0), (4, 0), (4, 4), (0, 4)]"

section \<open>Properties\<close>

declare isPointInPolygon_loop.simps [simp del]


subsection \<open>The crossing test\<close>

lemma intersect_crosses: "intersect point vi vj = Inr (crosses point vi vj)"
  by (cases point; cases vi; cases vj) (auto simp: js_divide_def)

text \<open>
  In exact arithmetic the longitude at which an edge meets a latitude does not depend on
  which end point the formula starts from.
\<close>

lemma crosses_sym: "crosses point vi vj = crosses point vj vi"
proof -
  obtain lng lat xi yi xj yj where [simp]: "point = (lng, lat)" "vi = (xi, yi)" "vj = (xj, yj)"
    by (cases point; cases vi; cases vj) auto
  have "(xj - xi) * (lat - yi) / (yj - yi) + xi = (xi - xj) * (lat - yj) / (yi - yj) + xj"
    if "yi \<noteq> yj"
    using that by (simp add: field_simps)
  then show ?thesis by auto
qed

lemma self_edge: "\<not> crosses point v v"
  by (cases point; cases v) simp

subsection \<open>The loop as a fold over its edges\<close>

lemma length_loop_edges: "length (loop_edges polygon) = length polygon"
  by (simp add: loop_edges_def)

lemma loop_edges_nth:
  assumes "i < length polygon"
  shows "loop_edges polygon ! i =
         (polygon ! i, polygon ! ((length polygon - 1 + i) mod length polygon))"
  using assms by (simp add: loop_edges_def nth_rotate)

lemma loop_fold:
  assumes "i \<le> length polygon"
      and "i < length polygon \<Longrightarrow> j = int ((length polygon - 1 + i) mod length polygon)"
  shows "isPointInPolygon_loop point polygon i j inside =
         Inr (foldl (\<lambda>inside (vi, vj). if crosses point vi vj then \<not> inside else inside)
                inside (drop i (loop_edges polygon)))"
  using assms
proof (induction point polygon i j inside rule: isPointInPolygon_loop.induct)
  case (1 point polygon i j inside)
  show ?case
  proof (cases "i < length polygon")
    case False
    then show ?thesis
      by (subst isPointInPolygon_loop.simps) (simp add: length_loop_edges)
  next
    case True
    let ?n = "length polygon"
    let ?vi = "polygon ! i"
    let ?vj = "polygon ! ((?n - 1 + i) mod ?n)"
    let ?c = "crosses point ?vi ?vj"
    have j: "j = int ((?n - 1 + i) mod ?n)" using 1 True by simp
    have pos: "0 < ?n" using True by (cases polygon) auto
    have vi: "js_index polygon (int i) = Inr ?vi" using True by (simp add: js_index_def)
    have vj: "js_index polygon j = Inr ?vj" using pos by (simp add: js_index_def j)
    have nxt: "int i = int ((?n - 1 + (i + 1)) mod ?n)"
    proof -
      have "?n - 1 + (i + 1) = ?n + i" using True by simp
      then show ?thesis using True by simp
    qed
    have dr: "drop i (loop_edges polygon) = (?vi, ?vj) # drop (Suc i) (loop_edges polygon)"
      using True Cons_nth_drop_Suc[of i "loop_edges polygon"] loop_edges_nth[OF True]
      by (simp add: length_loop_edges)
    have "isPointInPolygon_loop point polygon i j inside =
          isPointInPolygon_loop point polygon (i + 1) (int i) (if ?c then \<not> inside else inside)"
      using True by (subst isPointInPolygon_loop.simps) (simp add: vi vj intersect_crosses)
    also have "\<dots> =
        Inr (foldl (\<lambda>inside (vi, vj). if crosses point vi vj then \<not> inside else inside)
               (if ?c then \<not> inside else inside) (drop (i + 1) (loop_edges polygon)))"
    proof (rule "1.IH"[OF True vi vj intersect_crosses])
      show "i + 1 \<le> ?n" using True by simp
      show "int i = int ((?n - 1 + (i + 1)) mod ?n)" by (rule nxt)
    qed
    finally show ?thesis by (simp add: dr)
  qed
qed

lemma isPointInPolygon_loop_edges:
  "isPointInPolygon point polygon = Inr (even_odd point (loop_edges polygon))"
proof (cases "polygon = []")
  case True
  then show ?thesis
    unfolding isPointInPolygon_def even_odd_def loop_edges_def
    by (subst isPointInPolygon_loop.simps) simp
next
  case False
  then have j: "int (length polygon) - 1 = int ((length polygon - 1 + 0) mod length polygon)"
    by (cases polygon) auto
  have "isPointInPolygon_loop point polygon 0 (int (length polygon) - 1) False =
        Inr (foldl (\<lambda>inside (vi, vj). if crosses point vi vj then \<not> inside else inside)
               False (drop 0 (loop_edges polygon)))"
    by (rule loop_fold) (simp, rule j)
  then show ?thesis
    unfolding isPointInPolygon_def even_odd_def by (simp only: drop_0)
qed

subsection \<open>Counting crossings\<close>

lemma toggle_parity:
  "foldl (\<lambda>inside (vi, vj). if crosses point vi vj then \<not> inside else inside) b edges =
   (b \<noteq> odd (crossings point edges))"
  by (induction edges arbitrary: b) (auto simp: crossings_def)

lemma even_odd_parity: "even_odd point edges = odd (crossings point edges)"
  by (simp add: even_odd_def toggle_parity)

lemma crossings_append:
  "crossings point (es @ fs) = crossings point es + crossings point fs"
  by (simp add: crossings_def)

lemma crossings_rotate: "crossings point (rotate m edges) = crossings point edges"
proof -
  let ?k = "m mod length edges"
  have "crossings point (rotate m edges) =
        crossings point (drop ?k edges) + crossings point (take ?k edges)"
    by (simp only: rotate_drop_take crossings_append)
  also have "\<dots> = crossings point (take ?k edges @ drop ?k edges)"
    by (simp only: crossings_append add.commute)
  finally show ?thesis by (simp only: append_take_drop_id)
qed


lemma crossings_swap: "crossings point (map prod.swap edges) = crossings point edges"
proof -
  have "filter (\<lambda>(vi, vj). crosses point vi vj) (map prod.swap edges) =
        map prod.swap (filter (\<lambda>(vi, vj). crosses point vi vj) edges)"
    by (induction edges) (auto simp: crosses_sym)
  then show ?thesis by (simp add: crossings_def)
qed

subsection \<open>Edges of rotated, closed and reversed rings\<close>

lemma zip_rotate1:
  "length xs = length ys \<Longrightarrow> zip (rotate1 xs) (rotate1 ys) = rotate1 (zip xs ys)"
  by (cases xs; cases ys) auto

lemma zip_rotate:
  "length xs = length ys \<Longrightarrow> zip (rotate m xs) (rotate m ys) = rotate m (zip xs ys)"
  by (induction m) (simp_all add: zip_rotate1)

lemma cyclic_edges_zip: "cyclic_edges ring = zip ring (rotate1 ring)"
  by (rule nth_equalityI) (simp_all add: cyclic_edges_def nth_rotate1)

lemma isPointInPolygon_loop_parity:
  "isPointInPolygon point ring = Inr (odd (crossings point (loop_edges ring)))"
  by (simp only: isPointInPolygon_loop_edges even_odd_parity)

lemma loop_edges_rotate: "loop_edges (rotate k ring) = rotate k (loop_edges ring)"
proof -
  have "rotate (length ring - 1) (rotate k ring) = rotate k (rotate (length ring - 1) ring)"
    by (simp only: rotate_rotate add.commute)
  then show ?thesis by (simp add: loop_edges_def zip_rotate)
qed

lemma loop_edges_closed:
  "loop_edges ((v # vs) @ [v]) = (v, v) # rotate1 (loop_edges (v # vs))"
proof -
  have "rotate (length (v # vs)) ((v # vs) @ [v]) = [v] @ (v # vs)"
    by (rule rotate_append)
  then have closed: "loop_edges ((v # vs) @ [v]) = (v, v) # zip (vs @ [v]) (v # vs)"
    by (simp add: loop_edges_def)
  have "rotate1 (rotate (length vs) (v # vs)) = v # vs"
    by (metis length_Cons mod_self rotate_Suc rotate_id)
  then have "rotate1 (loop_edges (v # vs)) = zip (vs @ [v]) (v # vs)"
    by (simp add: loop_edges_def flip: zip_rotate1)
  with closed show ?thesis by simp
qed

lemma rotate1_loop_edges: "rotate1 (loop_edges ring) = map prod.swap (cyclic_edges ring)"
proof (cases "ring = []")
  case True
  then show ?thesis by (simp add: loop_edges_def cyclic_edges_def)
next
  case False
  then have "Suc (length ring - 1) = length ring" by (cases ring) auto
  then have full_turn: "rotate1 (rotate (length ring - 1) ring) = ring"
    by (metis rotate_Suc rotate_id mod_self)
  have "rotate1 (loop_edges ring) = zip (rotate1 ring) (rotate1 (rotate (length ring - 1) ring))"
    by (simp add: loop_edges_def zip_rotate1)
  also have "\<dots> = zip (rotate1 ring) ring" by (simp only: full_turn)
  also have "\<dots> = map prod.swap (zip ring (rotate1 ring))"
    by (rule nth_equalityI) simp_all
  finally show ?thesis by (simp only: cyclic_edges_zip)
qed

lemma crossings_loop_edges:
  "crossings point (loop_edges ring) = crossings point (cyclic_edges ring)"
proof -
  have "crossings point (loop_edges ring) = crossings point (rotate 1 (loop_edges ring))"
    by (simp only: crossings_rotate)
  also have "\<dots> = crossings point (map prod.swap (cyclic_edges ring))"
    by (simp add: rotate1_loop_edges)
  finally show ?thesis by (simp only: crossings_swap)
qed

lemma isPointInPolygon_parity:
  "isPointInPolygon point ring = Inr (odd (crossings point (cyclic_edges ring)))"
  by (simp only: isPointInPolygon_loop_edges even_odd_parity crossings_loop_edges)


lemma isPointInPolygon_rotate_any:
  "isPointInPolygon point (rotate k ring) = isPointInPolygon point ring"
  by (simp only: isPointInPolygon_loop_parity loop_edges_rotate crossings_rotate)


lemma isPointInPolygon_short:
  assumes "length ring < 3"
  shows "isPointInPolygon point ring = Inr False"
proof (cases ring)
  case Nil
  then show ?thesis by (simp add: isPointInPolygon_parity cyclic_edges_def crossings_def)
next
  case (Cons a rest)
  show ?thesis
  proof (cases rest)
    case Nil
    then show ?thesis
      using Cons by (simp add: isPointInPolygon_parity cyclic_edges_zip crossings_def self_edge)
  next
    case (Cons b rest')
    with assms \<open>ring = a # rest\<close> have "ring = [a, b]" by simp
    then show ?thesis
      using crosses_sym[of point a b]
      by (simp add: isPointInPolygon_parity cyclic_edges_zip crossings_def)
  qed
qed

text \<open>Evaluating the test on a concrete ring.\<close>

lemmas isPointInPolygon_eval = isPointInPolygon_parity cyclic_edges_zip crossings_def

subsection \<open>Rounding to double\<close>

lemma pow2_Suc: "pow2 (k + 1) = 2 * pow2 k"
proof (cases "0 \<le> k")
  case True
  then show ?thesis by (simp add: pow2_def nat_add_distrib)
next
  case False
  then have "nat (- k) = Suc (nat (- (k + 1)))" by simp
  then show ?thesis using False by (auto simp: pow2_def)
qed

text \<open>\<^const>\<open>exponent\<close> is the binary exponent: \<open>2 ^ e \<le> \<bar>x\<bar> < 2 ^ (e + 1)\<close>.\<close>

lemma exponent_bounds:
  assumes "x \<noteq> 0"
  shows "pow2 (exponent x) \<le> \<bar>x\<bar> \<and> \<bar>x\<bar> < pow2 (exponent x + 1)"
proof (cases "1 \<le> \<bar>x\<bar>")
  case True
  let ?n = "\<lfloor>\<bar>x\<bar>\<rfloor>"
  have n: "0 < ?n" using True by simp
  have e: "exponent x = bitlen ?n - 1" using True by (simp add: exponent_def)
  have b1: "1 \<le> bitlen ?n" using n by (simp add: bitlen_alt_def)
  from bitlen_bounds[OF n]
  have lo: "2 ^ nat (bitlen ?n - 1) \<le> ?n" and hi: "?n < 2 ^ nat (bitlen ?n)"
    by simp_all
  have "real_of_int (2 ^ nat (bitlen ?n - 1)) \<le> real_of_int ?n"
    using lo by (simp only: of_int_le_iff)
  also have "\<dots> \<le> \<bar>x\<bar>" by simp
  finally have A: "pow2 (exponent x) \<le> \<bar>x\<bar>" using b1 by (simp add: e pow2_def)
  have "?n + 1 \<le> 2 ^ nat (bitlen ?n)" using hi by simp
  then have "real_of_int (?n + 1) \<le> real_of_int (2 ^ nat (bitlen ?n))"
    by (simp only: of_int_le_iff)
  then have up: "real_of_int ?n + 1 \<le> 2 ^ nat (bitlen ?n)" by simp
  have "\<bar>x\<bar> < real_of_int ?n + 1" by linarith
  with up have "\<bar>x\<bar> < 2 ^ nat (bitlen ?n)" by linarith
  then have B: "\<bar>x\<bar> < pow2 (exponent x + 1)" using b1 by (simp add: e pow2_def)
  from A B show ?thesis ..
next
  case False
  let ?y = "1 / \<bar>x\<bar>"
  let ?m = "\<lceil>?y\<rceil> - 1"
  let ?b = "bitlen ?m"
  have xpos: "0 < \<bar>x\<bar>" using assms by simp
  have y1: "1 < ?y" using False xpos by simp
  then have "1 < \<lceil>?y\<rceil>" by (simp add: less_ceiling_iff)
  then have m: "0 < ?m" by simp
  have e: "exponent x = - ?b" using False by (simp add: exponent_def)
  have b1: "1 \<le> ?b" using m by (simp add: bitlen_alt_def)
  from bitlen_bounds[OF m]
  have lo: "2 ^ nat (?b - 1) \<le> ?m" and hi: "?m < 2 ^ nat ?b"
    by simp_all
  have "\<lceil>?y\<rceil> \<le> 2 ^ nat ?b" using hi by simp
  then have "?y \<le> real_of_int (2 ^ nat ?b)" by (simp only: ceiling_le_iff)
  then have "?y \<le> 2 ^ nat ?b" by simp
  then have "1 \<le> 2 ^ nat ?b * \<bar>x\<bar>" using xpos by (simp add: field_simps)
  then have "1 / 2 ^ nat ?b \<le> \<bar>x\<bar>" by (simp add: field_simps)
  then have A: "pow2 (exponent x) \<le> \<bar>x\<bar>" using b1 by (simp add: e pow2_def)
  have "2 ^ nat (?b - 1) < \<lceil>?y\<rceil>" using lo by simp
  then have "real_of_int (2 ^ nat (?b - 1)) < ?y" by (simp only: less_ceiling_iff)
  then have "2 ^ nat (?b - 1) < ?y" by simp
  then have "2 ^ nat (?b - 1) * \<bar>x\<bar> < 1" using xpos by (simp add: field_simps)
  then have lt: "\<bar>x\<bar> < 1 / 2 ^ nat (?b - 1)" by (simp add: field_simps)
  have B: "\<bar>x\<bar> < pow2 (exponent x + 1)"
  proof (cases "?b = 1")
    case True
    then show ?thesis using lt by (simp add: e pow2_def)
  next
    case False
    with b1 have "\<not> 0 \<le> - ?b + 1" "nat (- (- ?b + 1)) = nat (?b - 1)" by simp_all
    then show ?thesis using lt by (simp add: e pow2_def)
  qed
  from A B show ?thesis ..
qed

text \<open>Evaluating a rounding.\<close>

lemmas double_eval = double_def exponent_def compute_bitlen pow2_def round_even_def Let_def

text \<open>
  The literal \<^verbatim>\<open>0.1\<close> and the sum \<^verbatim>\<open>0.1 + 0.2\<close>, which JavaScript prints as
  \<^verbatim>\<open>0.30000000000000004\<close>.
\<close>

lemma double_sum_example:
  "double 0.1 = 3602879701896397 / 2 ^ 55 \<and>
   double (double 0.1 + double 0.2) = double 0.30000000000000004 \<and>
   double (double 0.1 + double 0.2) \<noteq> double 0.3"
  by (simp add: double_eval)

subsection \<open>The point-in-polygon test\<close>

text \<open>
  C2: \<^const>\<open>isPointInPolygon\<close> computes the even-odd rule of the specification. Over
  the edges of the cyclic ring (every vertex with the vertex after it, the first after
  the last) it toggles a flag that starts false exactly at the edges for which
  \<open>(yi > lat) \<noteq> (yj > lat)\<close> and \<open>lng < (xj - xi) * (lat - yi) / (yj - yi) + xi\<close> hold, and
  returns the flag. The specification does not say which end point of an edge is
  \<open>(xi, yi)\<close>; the result is the same for both readings: \<open>(xi, yi)\<close> the earlier vertex
  of the edge, or, as in the code, the later one.
\<close>

theorem isPointInPolygon_even_odd_rule:
  "isPointInPolygon point ring = Inr (even_odd point (cyclic_edges ring)) \<and>
   isPointInPolygon point ring = Inr (even_odd point (map prod.swap (cyclic_edges ring)))"
  by (simp only: isPointInPolygon_parity even_odd_parity crossings_swap)

text \<open>
  C3: the quotient by \<open>yj - yi\<close> is never a division by zero. Whenever the guard
  \<open>(yi > lat) \<noteq> (yj > lat)\<close> holds, \<open>yi\<close> and \<open>yj\<close> differ and the quotient is a number;
  without the guard no quotient is taken. So neither the crossing test of an edge nor
  \<^const>\<open>isPointInPolygon\<close> on any point and ring ends in the fault
  \<^const>\<open>DivisionByZero\<close>.
\<close>

theorem isPointInPolygon_no_division_by_zero:
  "((yi > lat) \<noteq> (yj > lat) \<longrightarrow>
      yi \<noteq> yj \<and>
      js_divide ((xj - xi) * (lat - yi)) (yj - yi) = Inr ((xj - xi) * (lat - yi) / (yj - yi))) \<and>
   intersect (lng, lat) (xi, yi) (xj, yj) \<noteq> Inl DivisionByZero \<and>
   isPointInPolygon point ring \<noteq> Inl DivisionByZero"
proof (intro conjI impI)
  assume "(yi > lat) \<noteq> (yj > lat)"
  then show "yi \<noteq> yj" by auto
  then show "js_divide ((xj - xi) * (lat - yi)) (yj - yi) = Inr ((xj - xi) * (lat - yi) / (yj - yi))"
    by (simp add: js_divide_def)
next
  show "intersect (lng, lat) (xi, yi) (xj, yj) \<noteq> Inl DivisionByZero"
    by (simp only: intersect_crosses) simp
next
  show "isPointInPolygon point ring \<noteq> Inl DivisionByZero"
    by (simp only: isPointInPolygon_parity) simp
qed

theorem isPointInPolygon_no_division_by_zero_witness:
  "((0::real) > 2) \<noteq> ((4::real) > 2) \<and>
   (0::real) \<noteq> 4 \<and>
   js_divide ((4 - 0) * (2 - 0)) (4 - 0) = Inr 2 \<and>
   intersect (1, 2) (0, 0) (4, 4) = Inr True \<and>
   isPointInPolygon (1, 2) [(0, 0), (4, 0), (4, 4)] = Inr False"
proof -
  have guard: "((0::real) > 2) \<noteq> ((4::real) > 2)" by simp
  have "(0::real) \<noteq> 4 \<and>
        js_divide ((4 - 0) * (2 - 0)) (4 - 0) = Inr ((4 - 0) * (2 - 0) / (4 - 0))"
    using isPointInPolygon_no_division_by_zero
            [where yi = 0 and lat = 2 and yj = 4 and xi = 0 and xj = 4 and lng = 1]
          guard
    by blast
  moreover have "intersect (1, 2) (0, 0) (4, 4) = Inr True"
    by (simp add: js_divide_def)
  moreover have "isPointInPolygon (1, 2) [(0, 0), (4, 0), (4, 4)] = Inr False"
    by (simp add: isPointInPolygon_eval)
  ultimately show ?thesis using guard by simp
qed

text \<open>
  C4: rotation invariance. For a ring of at least 3 vertices, every rotation amount \<open>k\<close>
  and every point, the test on the ring rotated by \<open>k\<close> (the same polygon, started at
  another vertex) gives the result of the test on the ring.
\<close>

theorem isPointInPolygon_rotate:
  assumes "3 \<le> length ring"
  shows "isPointInPolygon point (rotate k ring) = isPointInPolygon point ring"
  by (rule isPointInPolygon_rotate_any)

theorem isPointInPolygon_rotate_witness:
  "3 \<le> length (hd (coordinates zone_1)) \<and>
   isPointInPolygon (-122.19, 47.60) (rotate 2 (hd (coordinates zone_1))) = Inr True \<and>
   isPointInPolygon (-122.19, 47.60) (hd (coordinates zone_1)) = Inr True"
proof -
  have len: "3 \<le> length (hd (coordinates zone_1))" by (simp add: zone_1_def)
  have inside: "isPointInPolygon (-122.19, 47.60) (hd (coordinates zone_1)) = Inr True"
    by (simp add: zone_1_def isPointInPolygon_eval)
  show ?thesis
    using len inside isPointInPolygon_rotate[OF len, of "(-122.19, 47.60)" 2] by simp
qed

text \<open>
  C5: closure independence. A ring given with its first vertex repeated at the end gives
  the same result, for every point, as the ring without that last vertex.
\<close>

theorem isPointInPolygon_closed_ring:
  "isPointInPolygon point ((v # vs) @ [v]) = isPointInPolygon point (v # vs)"
proof -
  have "crossings point ((v, v) # rotate1 (loop_edges (v # vs))) =
        crossings point (rotate 1 (loop_edges (v # vs)))"
    by (simp add: crossings_def self_edge)
  then have "crossings point (loop_edges ((v # vs) @ [v])) =
             crossings point (loop_edges (v # vs))"
    by (simp only: loop_edges_closed crossings_rotate)
  then show ?thesis by (simp only: isPointInPolygon_loop_parity)
qed




subsection \<open>Zone lookup\<close>

lemma findZone_find:
  assumes "\<forall>zone\<in>set registry. coordinates zone \<noteq> []"
  shows "findZone point registry = Inr (find (outer_ring_contains point) registry)"
  using assms
proof (induction registry)
  case Nil
  then show ?case by simp
next
  case (Cons zone rest)
  then obtain ring holes where c: "coordinates zone = ring # holes"
    by (cases "coordinates zone") auto
  obtain b where b: "isPointInPolygon point ring = Inr b"
    by (simp add: isPointInPolygon_parity)
  show ?case
    using Cons by (simp add: c b js_index_def outer_ring_contains_def)
qed

text \<open>A zone without any ring makes the lookup throw when the scan reaches it.\<close>

lemma findZone_no_ring: "coordinates zone = [] \<Longrightarrow> findZone point (zone # rest) = Inl TypeError"
  by (simp add: js_index_def)

lemma findZone_Some:
  assumes "findZone point registry = Inr (Some zone)"
  shows "\<exists>ring holes. coordinates zone = ring # holes \<and> isPointInPolygon point ring = Inr True"
  using assms
proof (induction registry)
  case Nil
  then show ?case by simp
next
  case (Cons z rest)
  show ?case
  proof (cases "coordinates z")
    case Nil
    with Cons.prems show ?thesis by (simp add: js_index_def)
  next
    case (Cons ring holes)
    obtain b where b: "isPointInPolygon point ring = Inr b"
      by (simp add: isPointInPolygon_parity)
    show ?thesis
    proof (cases b)
      case True
      with Cons.prems Cons b have "zone = z" by (simp add: js_index_def)
      with Cons b True show ?thesis by simp
    next
      case False
      with Cons.prems Cons b have "findZone point rest = Inr (Some zone)"
        by (simp add: js_index_def)
      then show ?thesis by (rule Cons.IH)
    qed
  qed
qed

text \<open>
  C1: for every point and every registry whose zones each have an outer boundary ring,
  \<^const>\<open>findZone\<close> returns the first zone, in registry order, whose outer ring contains
  the point by \<^const>\<open>isPointInPolygon\<close>, and none when no zone's ring contains it. When
  two overlapping zones both contain the point, the earlier one is returned, whatever
  their shapes.
\<close>

theorem findZone_first_match:
  assumes "\<forall>zone\<in>set registry. coordinates zone \<noteq> []"
  shows "findZone point registry = Inr (find (outer_ring_contains point) registry)"
  using assms by (rule findZone_find)

theorem findZone_first_match_witness:
  "coordinates zone_1 \<noteq> [] \<and> coordinates zone_wide \<noteq> [] \<and>
   outer_ring_contains (-122.19, 47.60) zone_1 \<and>
   outer_ring_contains (-122.19, 47.60) zone_wide \<and>
   findZone (-122.19, 47.60) [zone_1, zone_wide] = Inr (Some zone_1) \<and>
   findZone (-122.19, 47.60) [zone_wide, zone_1] = Inr (Some zone_wide) \<and>
   findZone (-121, 47.60) [zone_wide, zone_1] = Inr None"
proof -
  have in_1: "outer_ring_contains (-122.19, 47.60) zone_1"
    by (simp add: outer_ring_contains_def zone_1_def isPointInPolygon_eval)
  have in_wide: "outer_ring_contains (-122.19, 47.60) zone_wide"
    by (simp add: outer_ring_contains_def zone_wide_def isPointInPolygon_eval)
  have out_1: "\<not> outer_ring_contains (-121, 47.60) zone_1"
    by (simp add: outer_ring_contains_def zone_1_def isPointInPolygon_eval)
  have out_wide: "\<not> outer_ring_contains (-121, 47.60) zone_wide"
    by (simp add: outer_ring_contains_def zone_wide_def isPointInPolygon_eval)
  have rings: "coordinates zone_1 \<noteq> []" "coordinates zone_wide \<noteq> []"
    by (simp_all add: zone_1_def zone_wide_def)
  have "findZone (-122.19, 47.60) [zone_1, zone_wide] = Inr (Some zone_1)"
    using findZone_first_match[of "[zone_1, zone_wide]" "(-122.19, 47.60)"] rings in_1
    by simp
  moreover have "findZone (-122.19, 47.60) [zone_wide, zone_1] = Inr (Some zone_wide)"
    using findZone_first_match[of "[zone_wide, zone_1]" "(-122.19, 47.60)"] rings in_wide
    by simp
  moreover have "findZone (-121, 47.60) [zone_wide, zone_1] = Inr None"
    using findZone_first_match[of "[zone_wide, zone_1]" "(-121, 47.60)"] rings out_1 out_wide
    by simp
  ultimately show ?thesis using rings in_1 in_wide by simp
qed

text \<open>
  C7: on valid input, a registry whose zones each have an outer boundary ring,
  \<^const>\<open>findZone\<close> never throws: it returns a zone or none. On the empty registry it
  returns none for every point.
\<close>

theorem findZone_total:
  "((\<forall>zone\<in>set registry. coordinates zone \<noteq> []) \<longrightarrow>
      (\<exists>result. findZone point registry = Inr result)) \<and>
   findZone point [] = Inr None"
  by (simp add: findZone_find)

theorem findZone_total_witness:
  "coordinates zone_1 \<noteq> [] \<and> coordinates zone_2 \<noteq> [] \<and> coordinates zone_3 \<noteq> [] \<and>
   (\<exists>result. findZone (-122.17, 47.60) [zone_1, zone_2, zone_3] = Inr result) \<and>
   findZone (-122.17, 47.60) [] = Inr None"
proof -
  have rings: "coordinates zone_1 \<noteq> []" "coordinates zone_2 \<noteq> []" "coordinates zone_3 \<noteq> []"
    by (simp_all add: zone_1_def zone_2_def zone_3_def)
  then have "\<forall>zone\<in>set [zone_1, zone_2, zone_3]. coordinates zone \<noteq> []" by simp
  with findZone_total[of "[zone_1, zone_2, zone_3]" "(-122.17, 47.60)"]
  have "\<exists>result. findZone (-122.17, 47.60) [zone_1, zone_2, zone_3] = Inr result"
    by blast
  then show ?thesis using rings by simp
qed

text \<open>
  C10: for every point and every ring of fewer than 3 vertices,
  \<^const>\<open>isPointInPolygon\<close> returns false (in exact arithmetic); so a zone that
  \<^const>\<open>findZone\<close> returns has an outer ring of at least 3 vertices.
\<close>

theorem isPointInPolygon_degenerate:
  "(length ring < 3 \<longrightarrow> isPointInPolygon point ring = Inr False) \<and>
   (findZone point registry = Inr (Some zone) \<longrightarrow>
      coordinates zone \<noteq> [] \<and> 3 \<le> length (hd (coordinates zone)))"
proof (intro conjI impI)
  assume "length ring < 3"
  then show "isPointInPolygon point ring = Inr False" by (rule isPointInPolygon_short)
next
  assume "findZone point registry = Inr (Some zone)"
  then obtain r holes where
    r: "coordinates zone = r # holes" "isPointInPolygon point r = Inr True"
    using findZone_Some by blast
  then show "coordinates zone \<noteq> []" by simp
  have "\<not> length r < 3" using isPointInPolygon_short[of r point] r by auto
  then show "3 \<le> length (hd (coordinates zone))" using r by simp
qed

theorem isPointInPolygon_degenerate_witness:
  "length [(0, 0), (4, 4) :: coord] < 3 \<and>
   crosses (1, 2) (0, 0) (4, 4) \<and>
   isPointInPolygon (1, 2) [(0, 0), (4, 4)] = Inr False \<and>
   findZone (-122.19, 47.60) [zone_two_vertices, zone_1] = Inr (Some zone_1) \<and>
   coordinates zone_1 \<noteq> [] \<and> 3 \<le> length (hd (coordinates zone_1))"
proof -
  have short: "length [(0, 0), (4, 4) :: coord] < 3" by simp
  have found: "findZone (-122.19, 47.60) [zone_two_vertices, zone_1] = Inr (Some zone_1)"
    by (simp add: zone_two_vertices_def zone_1_def js_index_def isPointInPolygon_eval)
  have "crosses (1, 2) (0, 0) (4, 4)" by simp
  then show ?thesis
    using short found
      isPointInPolygon_degenerate
        [where ring = "[(0, 0), (4, 4)]" and point = "(1, 2)" and zone = zone_1]
      isPointInPolygon_degenerate
        [where point = "(-122.19, 47.60)" and registry = "[zone_two_vertices, zone_1]"
           and zone = zone_1]
    by simp
qed

subsection \<open>Registry construction\<close>

lemma recolour_fields:
  "map coordinates (map (\<lambda>(index, zone). zone\<lparr>color := f index\<rparr>) (enumerate n zs)) =
     map coordinates zs"
  "map id_zone (map (\<lambda>(index, zone). zone\<lparr>color := f index\<rparr>) (enumerate n zs)) =
     map id_zone zs"
  "map name (map (\<lambda>(index, zone). zone\<lparr>color := f index\<rparr>) (enumerate n zs)) =
     map name zs"
  by (induction zs arbitrary: n) simp_all

lemma same_rings:
  assumes "map coordinates registry = map coordinates zs"
      and "\<forall>zone\<in>set zs. coordinates zone \<noteq> []"
  shows "\<forall>zone\<in>set registry. coordinates zone \<noteq> []"
proof -
  have "coordinates ` set registry = coordinates ` set zs"
    using assms(1) by (metis set_map)
  then show ?thesis using assms(2) by (metis (no_types) imageE imageI)
qed

text \<open>
  C8, as the claim states it, fails: a zone whose boundary has two vertices goes through
  registry construction without any error and is part of the registry.
\<close>

theorem ZONES_accepts_two_vertices:
  "length (hd (coordinates zone_two_vertices)) = 2 \<and>
   ZONES [zone_two_vertices] = Inr [zone_two_vertices\<lparr>color := ''#FF6B6B''\<rparr>] \<and>
   ZONES [zone_two_vertices] \<noteq> Inl TypeError \<and>
   ZONES [zone_two_vertices] \<noteq> Inl DivisionByZero"
  by (simp add: ZONES_def DISTRICT_COLORS_def zone_two_vertices_def)

text \<open>
  C8, amended: registry construction validates nothing and never fails. Every zone
  supplied, also one whose boundary has fewer than 3 vertices, is kept with its id, name
  and boundary as they are; only its colour is set. The lookup does not validate zones
  either, and when every zone has an outer boundary ring, whatever its number of
  vertices, \<^const>\<open>findZone\<close> on the constructed registry throws nothing: it returns a
  zone or none.
\<close>

theorem ZONES_no_validation:
  "\<exists>registry. ZONES FIRE_DISTRICT_ZONES = Inr registry \<and>
     map coordinates registry = map coordinates FIRE_DISTRICT_ZONES \<and>
     map id_zone registry = map id_zone FIRE_DISTRICT_ZONES \<and>
     map name registry = map name FIRE_DISTRICT_ZONES \<and>
     ((\<forall>zone\<in>set FIRE_DISTRICT_ZONES. coordinates zone \<noteq> []) \<longrightarrow>
        (\<exists>result. findZone point registry = Inr result))"
proof -
  let ?registry = "map (\<lambda>(index, zone).
                      zone\<lparr>color := DISTRICT_COLORS ! (index mod length DISTRICT_COLORS)\<rparr>)
                    (enumerate 0 FIRE_DISTRICT_ZONES)"
  have built: "ZONES FIRE_DISTRICT_ZONES = Inr ?registry" by (simp only: ZONES_def)
  have kept: "map coordinates ?registry = map coordinates FIRE_DISTRICT_ZONES"
    "map id_zone ?registry = map id_zone FIRE_DISTRICT_ZONES"
    "map name ?registry = map name FIRE_DISTRICT_ZONES"
    by (rule recolour_fields)+
  have "\<exists>result. findZone point ?registry = Inr result"
    if "\<forall>zone\<in>set FIRE_DISTRICT_ZONES. coordinates zone \<noteq> []"
    using same_rings[OF kept(1) that] by (simp add: findZone_find)
  with built kept show ?thesis by blast
qed

theorem ZONES_no_validation_witness:
  "coordinates zone_1 \<noteq> [] \<and> coordinates zone_two_vertices \<noteq> [] \<and>
   length (hd (coordinates zone_two_vertices)) < 3 \<and>
   (\<exists>registry. ZONES [zone_1, zone_two_vertices] = Inr registry \<and>
      map coordinates registry = map coordinates [zone_1, zone_two_vertices] \<and>
      (\<exists>result. findZone (1, 2) registry = Inr result))"
proof -
  have rings: "coordinates zone_1 \<noteq> []" "coordinates zone_two_vertices \<noteq> []"
    by (simp_all add: zone_1_def zone_two_vertices_def)
  have short: "length (hd (coordinates zone_two_vertices)) < 3"
    by (simp add: zone_two_vertices_def)
  have "\<forall>zone\<in>set [zone_1, zone_two_vertices]. coordinates zone \<noteq> []"
    using rings by simp
  with ZONES_no_validation[of "[zone_1, zone_two_vertices]" "(1, 2)"]
  have "\<exists>registry. ZONES [zone_1, zone_two_vertices] = Inr registry \<and>
      map coordinates registry = map coordinates [zone_1, zone_two_vertices] \<and>
      (\<exists>result. findZone (1, 2) registry = Inr result)"
    by blast
  with rings short show ?thesis by blast
qed

subsection \<open>Label position\<close>

lemma foldl_sums:
  "foldl (\<lambda>(x, y) coord. (x + fst coord, y + snd coord)) (x0, y0) coords =
   (x0 + sum_list (map fst coords), y0 + sum_list (map snd coords))"
  by (induction coords arbitrary: x0 y0) (simp_all add: add.assoc)

text \<open>
  C9: for every non-empty ring, \<^const>\<open>calculatePolygonCenter\<close> returns the arithmetic
  mean of the vertices: the sum of the longitudes and the sum of the latitudes, each
  divided by the number of vertices.
\<close>

theorem calculatePolygonCenter_mean:
  assumes "ring \<noteq> []"
  shows "calculatePolygonCenter ring =
         Inr (sum_list (map fst ring) / real (length ring),
              sum_list (map snd ring) / real (length ring))"
  using assms by (simp add: calculatePolygonCenter_def foldl_sums js_divide_def)

theorem calculatePolygonCenter_mean_witness:
  "ring_five \<noteq> [] \<and> calculatePolygonCenter ring_five = Inr (2, 8 / 5)"
proof -
  have ne: "ring_five \<noteq> []" by (simp add: ring_five_def)
  show ?thesis
    using ne calculatePolygonCenter_mean[OF ne] by (simp add: ring_five_def)
qed

text \<open>
  The mean of the vertices is not the area-weighted centroid: the square with one more
  vertex on its lower side has its centroid in the middle, its vertex mean below.
\<close>

lemma vertex_mean_is_not_area_centroid:
  "area_centroid ring_five = (2, 2) \<and>
   calculatePolygonCenter ring_five \<noteq> Inr (area_centroid ring_five)"
proof -
  have "area_centroid ring_five = (2, 2)"
    by (simp add: area_centroid_def cyclic_edges_zip shoelace_def ring_five_def)
  moreover have "calculatePolygonCenter ring_five = Inr (2, 8 / 5)"
    by (simp add: calculatePolygonCenter_def js_divide_def ring_five_def)
  ultimately show ?thesis by simp
qed

end
